theory Spec2Isabelle
  imports Complex_Main
begin

section \<open>International impulse clock controller\<close>

text \<open>
  A shallow embedding of \<^verbatim>\<open>international_clock_daemon_web.py\<close>. The module keeps one
  global \<^verbatim>\<open>STATE\<close> guarded by one non-reentrant \<^verbatim>\<open>threading.Lock\<close>, drives two
  relays and persists two fields in a JSON file. All of that is carried in one record,
  passed through every function and returned updated.

  Clock readings (\<^verbatim>\<open>datetime.datetime.now()\<close>, \<^verbatim>\<open>time.monotonic()\<close>) are arguments
  of the functions that take them in the source. Sleeping is not modelled; seconds
  are rational numbers. The daemon thread runs the functions below one after another;
  a request of the web thread is served whole, at a point where the daemon does not
  hold the lock.
\<close>

subsection \<open>Data\<close>

record datetime =
  year :: int
  month :: int
  day :: int
  hour :: int
  minute :: int

text \<open>
  The status line of a fast-set session. The source stores formatted text; each
  constructor is one of its message templates, with the values the template formats.
  \<^item> \<open>Idle\<close>: "Idle"
  \<^item> \<open>Starting\<close>: "Starting..."
  \<^item> \<open>Will_stall stall\<close>: "Dial is (stall) min fast: will STALL until aligned."
  \<^item> \<open>Already_aligned\<close>: "Already aligned (no action)."
  \<^item> \<open>Running_dynamic\<close>: "FAST SET running (dynamic)..."
  \<^item> \<open>Cancelled_by_user\<close>: "FAST SET cancelled by user."
  \<^item> \<open>Complete n\<close>: "FAST SET complete (pulses sent: (n))."
  \<^item> \<open>Advancing n adv\<close>: "Advancing... pulses=(n), remaining=(adv)"
  \<^item> \<open>Error e\<close>: "FAST SET error: (e)"
  \<^item> \<open>Requested\<close>: "FAST SET requested..."
  \<^item> \<open>Stop_requested\<close>: "STOP requested..."
\<close>

datatype runtime_error = Timeout_reached | Pulse_cap_reached

datatype status =
    Idle
  | Starting
  | Will_stall int
  | Already_aligned
  | Running_dynamic
  | Cancelled_by_user
  | Complete nat
  | Advancing nat int
  | Error runtime_error
  | Requested
  | Stop_requested

record State =
  offset_minutes :: int
  has_offset :: bool
  last_minute_tick :: "(int \<times> int \<times> int \<times> int \<times> int) option"
  last_correction_hour :: "(int \<times> int \<times> int \<times> int) option"
  stall_remaining_minutes :: int
  fast_set_requested :: bool
  fast_set_running :: bool
  fast_set_cancel_requested :: bool
  fast_set_status :: status

text \<open>
  What \<^verbatim>\<open>restore_state\<close> finds on disk. \<open>Json off has\<close> is a JSON object whose
  \<^verbatim>\<open>offset_minutes\<close>, when present, converts with \<^verbatim>\<open>int\<close>; a missing key is \<open>None\<close>
  (\<^verbatim>\<open>saved_at\<close> is written and never read). \<open>Unreadable\<close> is a file that
  \<^verbatim>\<open>open\<close> or \<^verbatim>\<open>json.load\<close> rejects, before the lock is taken; \<open>Ill_typed\<close> is JSON
  that makes \<^verbatim>\<open>data.get\<close> or \<^verbatim>\<open>int\<close> raise, under the lock and before any assignment.
\<close>

datatype state_file =
  File_not_found | Unreadable | Ill_typed | Json "int option" "bool option"

text \<open>How a write by \<^verbatim>\<open>persist_state\<close> goes: well, or raising before or after the lock.\<close>

datatype fs_fault = No_fault | Makedirs_fails | Open_fails

datatype line = A | B | AB

datatype event = Pulse line rat

text \<open>
  The process: \<^verbatim>\<open>STATE\<close>, the two relays (\<open>True\<close> is energized), whether \<^verbatim>\<open>LOCK\<close>
  is held, the state file, and the pulses sent so far, oldest first.
\<close>

record world = State +
  A_RELAY :: bool
  B_RELAY :: bool
  LOCK :: bool
  STATE_FILE :: state_file
  fault :: fs_fault
  trace :: "event list"

text \<open>
  \<^verbatim>\<open>LOCK\<close> is not reentrant: a thread that acquires it while holding it never
  returns. \<open>Deadlock w\<close> is that outcome, with the process as it stands there.
\<close>

datatype 'a outcome = Returns 'a | Deadlock world

definition and_then :: "'a outcome \<Rightarrow> ('a \<Rightarrow> 'b outcome) \<Rightarrow> 'b outcome" where
  "and_then r f = (case r of Returns x \<Rightarrow> f x | Deadlock w \<Rightarrow> Deadlock w)"

definition acquire :: "world \<Rightarrow> world outcome" where
  "acquire w = (if LOCK w then Deadlock w else Returns (w\<lparr>LOCK := True\<rparr>))"

definition release :: "world \<Rightarrow> world" where
  "release w = w\<lparr>LOCK := False\<rparr>"

subsection \<open>Configuration\<close>

definition MINUTE_PULSE_WIDTH_SEC :: rat where "MINUTE_PULSE_WIDTH_SEC = 1"
definition CORRECTION_PULSES :: nat where "CORRECTION_PULSES = 17"
definition CORRECTION_PULSE_WIDTH_SEC :: rat where "CORRECTION_PULSE_WIDTH_SEC = 1 / 2"
definition FAST_SET_PULSE_WIDTH_SEC :: rat where "FAST_SET_PULSE_WIDTH_SEC = 3 / 5"
definition FAST_SET_MAX_PULSES :: nat where "FAST_SET_MAX_PULSES = 400"
definition FAST_SET_MAX_SECONDS :: rat where "FAST_SET_MAX_SECONDS = 40 * 60"

subsection \<open>Relays\<close>

definition all_relays_off :: "world \<Rightarrow> world" where
  "all_relays_off w = w\<lparr>A_RELAY := False, B_RELAY := False\<rparr>"

text \<open>A pulse is on, sleep, off; the trace gets the pulse once the relay is off again.\<close>

definition pulse_a :: "rat \<Rightarrow> world \<Rightarrow> world" where
  "pulse_a width_sec w =
     (let w1 = w\<lparr>A_RELAY := True\<rparr>
      in w1\<lparr>A_RELAY := False, trace := trace w1 @ [Pulse A width_sec]\<rparr>)"

definition pulse_b :: "rat \<Rightarrow> world \<Rightarrow> world" where
  "pulse_b width_sec w =
     (let w1 = w\<lparr>B_RELAY := True\<rparr>
      in w1\<lparr>B_RELAY := False, trace := trace w1 @ [Pulse B width_sec]\<rparr>)"

definition pulse_ab :: "rat \<Rightarrow> world \<Rightarrow> world" where
  "pulse_ab width_sec w =
     (let w1 = w\<lparr>A_RELAY := True, B_RELAY := True\<rparr>
      in w1\<lparr>A_RELAY := False, B_RELAY := False, trace := trace w1 @ [Pulse AB width_sec]\<rparr>)"

subsection \<open>The dial offset\<close>

definition to_12h_minutes :: "datetime \<Rightarrow> int" where
  "to_12h_minutes dt = ((hour dt * 60) + minute dt) mod 720"

text \<open>
  \<^verbatim>\<open>parse_hhmm\<close> after the two \<^verbatim>\<open>int\<close> conversions: the range checks, \<open>None\<close> where
  the source raises \<^verbatim>\<open>ValueError\<close>.
\<close>

definition parse_hhmm :: "int \<Rightarrow> int \<Rightarrow> (int \<times> int) option" where
  "parse_hhmm h m =
     (if \<not> (0 \<le> h \<and> h \<le> 23) then None
      else if \<not> (0 \<le> m \<and> m \<le> 59) then None
      else Some (h, m))"

definition persist_state :: "world \<Rightarrow> world outcome" where
  "persist_state w =
     (if fault w = Makedirs_fails then Returns w
      else and_then (acquire w) (\<lambda>w1.
        let data = Json (Some (offset_minutes w1)) (Some (has_offset w1));
            w2 = release w1
        in if fault w2 = Open_fails then Returns w2
           else Returns (w2\<lparr>STATE_FILE := data\<rparr>)))"

definition restore_state :: "world \<Rightarrow> world outcome" where
  "restore_state w =
     (case STATE_FILE w of
        File_not_found \<Rightarrow> Returns w
      | Unreadable \<Rightarrow> Returns w
      | Ill_typed \<Rightarrow> and_then (acquire w) (\<lambda>w1. Returns (release w1))
      | Json off has \<Rightarrow>
          and_then (acquire w) (\<lambda>w1.
            Returns (release (w1\<lparr>
              offset_minutes := (case off of None \<Rightarrow> 0 | Some v \<Rightarrow> v) mod 720,
              has_offset := (case has of None \<Rightarrow> False | Some b \<Rightarrow> b)\<rparr>))))"

definition current_estimated_dial_minutes :: "datetime \<Rightarrow> world \<Rightarrow> int outcome" where
  "current_estimated_dial_minutes now w =
     (let sys_m = to_12h_minutes now
      in and_then (acquire w) (\<lambda>w1.
           if \<not> has_offset w1 then Returns sys_m
           else Returns ((sys_m + offset_minutes w1) mod 720)))"

definition set_dial_reading :: "datetime \<Rightarrow> int \<Rightarrow> int \<Rightarrow> world \<Rightarrow> world outcome" where
  "set_dial_reading now hh mm w =
     (let sys_m = to_12h_minutes now;
          dial_m = ((hh * 60) + mm) mod 720;
          offset = (dial_m - sys_m) mod 720
      in and_then (acquire w) (\<lambda>w1.
           persist_state (release (w1\<lparr>
             offset_minutes := offset,
             has_offset := True,
             stall_remaining_minutes := 0\<rparr>))))"

definition compute_fast_or_stall_plan :: "datetime \<Rightarrow> world \<Rightarrow> (int \<times> int) outcome" where
  "compute_fast_or_stall_plan now w =
     (let sys_m = to_12h_minutes now
      in and_then (current_estimated_dial_minutes now w) (\<lambda>dial_m.
           let delta_forward = (sys_m - dial_m) mod 720
           in if delta_forward = 0 then Returns (0, 0)
              else if delta_forward > 360 then Returns (720 - delta_forward, 0)
              else Returns (0, delta_forward)))"

definition update_offset_after_stall_or_advance :: "int \<Rightarrow> int \<Rightarrow> world \<Rightarrow> world outcome" where
  "update_offset_after_stall_or_advance stalled advanced w =
     (if stalled = 0 \<and> advanced = 0 then Returns w
      else and_then (acquire w) (\<lambda>w1.
        if \<not> has_offset w1 then Returns (release w1)
        else persist_state (release (w1\<lparr>
               offset_minutes := (offset_minutes w1 - stalled + advanced) mod 720\<rparr>))))"

subsection \<open>The hourly correction burst\<close>

definition hour_key :: "datetime \<Rightarrow> int \<times> int \<times> int \<times> int" where
  "hour_key now = (year now, month now, day now, hour now)"

definition minute_key :: "datetime \<Rightarrow> int \<times> int \<times> int \<times> int \<times> int" where
  "minute_key now = (year now, month now, day now, hour now, minute now)"

text \<open>
  The \<^verbatim>\<open>for\<close> loop of the burst: one A pulse per index. The inner wait for the
  deadline \<^verbatim>\<open>start + i * CORRECTION_INTERVAL_SEC\<close> only sleeps.
\<close>

primrec correction_pulses :: "nat \<Rightarrow> world \<Rightarrow> world" where
  "correction_pulses 0 w = w"
| "correction_pulses (Suc n) w = correction_pulses n (pulse_a CORRECTION_PULSE_WIDTH_SEC w)"

definition run_correction_burst_once_per_hour :: "datetime \<Rightarrow> world \<Rightarrow> world outcome" where
  "run_correction_burst_once_per_hour now w =
     (if minute now \<noteq> 59 then Returns w
      else and_then (acquire w) (\<lambda>w1.
        if last_correction_hour w1 = Some (hour_key now) then Returns (release w1)
        else Returns (correction_pulses CORRECTION_PULSES
               (release (w1\<lparr>last_correction_hour := Some (hour_key now)\<rparr>)))))"

subsection \<open>The control surface\<close>

definition fast_set :: "world \<Rightarrow> world outcome" where
  "fast_set w =
     and_then (acquire w) (\<lambda>w1.
       Returns (release (w1\<lparr>
         fast_set_requested := True,
         fast_set_cancel_requested := False,
         fast_set_status := Requested\<rparr>)))"

definition stop_correction :: "world \<Rightarrow> world outcome" where
  "stop_correction w =
     and_then (acquire w) (\<lambda>w1.
       Returns (all_relays_off (release (w1\<lparr>
         fast_set_cancel_requested := True,
         fast_set_requested := False,
         fast_set_status := Stop_requested\<rparr>))))"

text \<open>
  \<^verbatim>\<open>/set\<close> after the two \<^verbatim>\<open>int\<close> conversions: a \<^verbatim>\<open>ValueError\<close> ends the request
  with nothing changed.
\<close>

definition set_dial :: "datetime \<Rightarrow> int \<Rightarrow> int \<Rightarrow> world \<Rightarrow> world outcome" where
  "set_dial now hh mm w =
     (case parse_hhmm hh mm of
        None \<Rightarrow> Returns w
      | Some (h, m) \<Rightarrow> set_dial_reading now h m w)"

text \<open>\<^verbatim>\<open>/pulse\<close>, with the width already read as a number (1.0 when that failed).\<close>

definition pulse_test :: "datetime \<Rightarrow> string \<Rightarrow> rat \<Rightarrow> world \<Rightarrow> world outcome" where
  "pulse_test now which w0 w =
     (let width = max (1 / 20) (min 5 w0)
      in if which = ''A'' then Returns (pulse_a width w)
         else if which = ''B'' then Returns (pulse_b width w)
         else if which = ''AB'' then Returns (pulse_ab width w)
         else if which = ''CORR'' then
           run_correction_burst_once_per_hour (now\<lparr>minute := 59\<rparr>) w
         else Returns w)"

text \<open>A request of the web thread, with the clock reading its handler takes.\<close>

datatype request =
    Set_dial datetime int int
  | Fast_set
  | Stop_correction
  | Pulse_test datetime string rat

fun handle :: "request \<Rightarrow> world \<Rightarrow> world outcome" where
  "handle (Set_dial now hh mm) w = set_dial now hh mm w"
| "handle Fast_set w = fast_set w"
| "handle Stop_correction w = stop_correction w"
| "handle (Pulse_test now which w0) w = pulse_test now which w0 w"

fun handle_all :: "request list \<Rightarrow> world \<Rightarrow> world outcome" where
  "handle_all [] w = Returns w"
| "handle_all (r # rs) w = and_then (handle r w) (handle_all rs)"

subsection \<open>Fast set\<close>

text \<open>
  What one pass of the fast-set loop observes: the seconds since the loop began
  (\<^verbatim>\<open>time.monotonic() - start\<close>), the requests the web thread served since the last
  pass (each under the lock, so between two critical sections of the loop; here
  before the cancel check), and the wall clock read by the planner.
\<close>

record probe =
  elapsed :: rat
  web :: "request list"
  clock :: datetime

datatype loop_exit = Finished | Raised runtime_error

lemma and_then_cong [fundef_cong]:
  "r = r' \<Longrightarrow> (\<And>x. r' = Returns x \<Longrightarrow> f x = g x) \<Longrightarrow> and_then r f = and_then r' g"
  by (auto simp: and_then_def split: outcome.splits)

text \<open>
  The \<^verbatim>\<open>while True\<close> loop of \<^verbatim>\<open>maybe_handle_fast_set\<close>. Every pass that does not
  leave sends one pulse, and the pass entered with \<^verbatim>\<open>FAST_SET_MAX_PULSES\<close> sent
  raises, so the loop ends; pass \<open>i\<close> is the one entered with \<open>i\<close> pulses sent.
\<close>

function fast_set_loop :: "(nat \<Rightarrow> probe) \<Rightarrow> nat \<Rightarrow> world \<Rightarrow> (loop_exit \<times> world) outcome" where
  "fast_set_loop env pulses_sent w =
     (let p = env pulses_sent
      in if elapsed p > FAST_SET_MAX_SECONDS then Returns (Raised Timeout_reached, w)
         else and_then (handle_all (web p) w) (\<lambda>w0.
           and_then (acquire w0) (\<lambda>w1.
             if fast_set_cancel_requested w1 then
               Returns (Finished,
                 release (all_relays_off (w1\<lparr>fast_set_status := Cancelled_by_user\<rparr>)))
             else
               and_then (compute_fast_or_stall_plan (clock p) (release w1)) (\<lambda>(stall, adv).
                 if stall > 0 then
                   and_then (acquire (release w1)) (\<lambda>w2.
                     Returns (Finished, release (w2\<lparr>
                       stall_remaining_minutes := stall,
                       fast_set_status := Will_stall stall\<rparr>)))
                 else if adv = 0 then
                   and_then (acquire (release w1)) (\<lambda>w2.
                     Returns (Finished, release (w2\<lparr>
                       fast_set_status := Complete pulses_sent\<rparr>)))
                 else if pulses_sent \<ge> FAST_SET_MAX_PULSES then
                   Returns (Raised Pulse_cap_reached, release w1)
                 else
                   and_then (update_offset_after_stall_or_advance 0 1
                              (pulse_ab FAST_SET_PULSE_WIDTH_SEC (release w1))) (\<lambda>w3.
                     and_then
                       (if (pulses_sent + 1) mod 10 = 0 then
                          and_then (acquire w3) (\<lambda>w4.
                            Returns (release (w4\<lparr>
                              fast_set_status := Advancing (pulses_sent + 1) adv\<rparr>)))
                        else Returns w3)
                       (fast_set_loop env (pulses_sent + 1)))))))"
  by pat_completeness auto
termination
  by (relation "measure (\<lambda>(env, pulses_sent, w). FAST_SET_MAX_PULSES - pulses_sent)") auto

text \<open>
  The \<^verbatim>\<open>try\<close> block of \<^verbatim>\<open>maybe_handle_fast_set\<close>: how it leaves, by \<^verbatim>\<open>return\<close>
  or by a raised \<^verbatim>\<open>RuntimeError\<close>. \<open>now\<close> is the clock read by the first plan.
\<close>

definition fast_set_try :: "datetime \<Rightarrow> (nat \<Rightarrow> probe) \<Rightarrow> world \<Rightarrow> (loop_exit \<times> world) outcome" where
  "fast_set_try now env w =
     and_then (compute_fast_or_stall_plan now w) (\<lambda>(stall, adv).
       if stall > 0 then
         and_then (acquire w) (\<lambda>w1.
           Returns (Finished, release (w1\<lparr>
             stall_remaining_minutes := stall,
             fast_set_status := Will_stall stall\<rparr>)))
       else if adv = 0 then
         and_then (acquire w) (\<lambda>w1.
           Returns (Finished, release (w1\<lparr>fast_set_status := Already_aligned\<rparr>)))
       else
         and_then (acquire w) (\<lambda>w1.
           fast_set_loop env 0 (release (w1\<lparr>fast_set_status := Running_dynamic\<rparr>))))"

definition maybe_handle_fast_set :: "datetime \<Rightarrow> (nat \<Rightarrow> probe) \<Rightarrow> world \<Rightarrow> world outcome" where
  "maybe_handle_fast_set now env w =
     and_then (acquire w) (\<lambda>w1.
       if \<not> fast_set_requested w1 \<or> fast_set_running w1 then Returns (release w1)
       else
         and_then (fast_set_try now env (release (w1\<lparr>
                     fast_set_requested := False,
                     fast_set_running := True,
                     fast_set_cancel_requested := False,
                     fast_set_status := Starting\<rparr>))) (\<lambda>(exit, w2).
           and_then
             (case exit of
                Finished \<Rightarrow> Returns w2
              | Raised e \<Rightarrow>
                  and_then (acquire w2) (\<lambda>w3.
                    Returns (release (w3\<lparr>fast_set_status := Error e\<rparr>))))
             (\<lambda>w4.
               and_then (acquire w4) (\<lambda>w5.
                 Returns (all_relays_off (release (w5\<lparr>
                   fast_set_running := False,
                   fast_set_cancel_requested := False\<rparr>)))))))"

subsection \<open>The minute tick\<close>

definition minute_tick_actions :: "datetime \<Rightarrow> world \<Rightarrow> world outcome" where
  "minute_tick_actions now w =
     and_then (acquire w) (\<lambda>w1.
       if last_minute_tick w1 = Some (minute_key now) then Returns (release w1)
       else
         let w2 = w1\<lparr>last_minute_tick := Some (minute_key now)\<rparr>
         in if fast_set_running w2 then Returns (release w2)
            else if stall_remaining_minutes w2 > 0 then
              and_then (update_offset_after_stall_or_advance 1 0
                         (w2\<lparr>stall_remaining_minutes := stall_remaining_minutes w2 - 1\<rparr>)) (\<lambda>w3.
                and_then
                  (if minute now = 59 then run_correction_burst_once_per_hour now w3
                   else Returns w3)
                  (\<lambda>w4. Returns (release w4)))
            else
              let w3 = pulse_a MINUTE_PULSE_WIDTH_SEC (release w2);
                  w4 = (if 0 \<le> minute now \<and> minute now \<le> 49
                        then pulse_b MINUTE_PULSE_WIDTH_SEC w3 else w3)
              in if minute now = 59 then run_correction_burst_once_per_hour now w4
                 else Returns w4)"

text \<open>The module's initial \<^verbatim>\<open>STATE = State()\<close>, relays off, lock free.\<close>

definition initial :: "state_file \<Rightarrow> fs_fault \<Rightarrow> world" where
  "initial f x =
     \<lparr>offset_minutes = 0, has_offset = False,
      last_minute_tick = None, last_correction_hour = None,
      stall_remaining_minutes = 0,
      fast_set_requested = False, fast_set_running = False,
      fast_set_cancel_requested = False, fast_set_status = Idle,
      A_RELAY = False, B_RELAY = False, LOCK = False,
      STATE_FILE = f, fault = x, trace = []\<rparr>"

subsection \<open>Sequences of calls\<close>

text \<open>\<open>times n f\<close> calls \<open>f\<close> \<open>n\<close> times in a row.\<close>

primrec times :: "nat \<Rightarrow> (world \<Rightarrow> world outcome) \<Rightarrow> world \<Rightarrow> world outcome" where
  "times 0 f w = Returns w"
| "times (Suc n) f w = and_then (f w) (times n f)"

text \<open>
  The three writers of \<^verbatim>\<open>STATE.offset_minutes\<close>; \<^verbatim>\<open>restore_state\<close> with the file it
  finds.
\<close>

datatype mutation =
    Set_dial_reading datetime int int
  | Update_offset int int
  | Restore_state state_file

fun mutate :: "mutation \<Rightarrow> world \<Rightarrow> world outcome" where
  "mutate (Set_dial_reading now hh mm) w = set_dial_reading now hh mm w"
| "mutate (Update_offset stalled advanced) w =
     update_offset_after_stall_or_advance stalled advanced w"
| "mutate (Restore_state f) w = restore_state (w\<lparr>STATE_FILE := f\<rparr>)"

fun mutate_all :: "mutation list \<Rightarrow> world \<Rightarrow> world outcome" where
  "mutate_all [] w = Returns w"
| "mutate_all (m # ms) w = and_then (mutate m w) (mutate_all ms)"

definition normalized :: "world \<Rightarrow> bool" where
  "normalized w = (0 \<le> offset_minutes w \<and> offset_minutes w < 720)"

subsection \<open>Invocations of the burst\<close>

text \<open>
  The two callers of \<^verbatim>\<open>run_correction_burst_once_per_hour\<close>: the minute tick, and
  a direct call with a clock reading, as \<^verbatim>\<open>/pulse\<close> makes for its \<^verbatim>\<open>CORR\<close> target.
\<close>

datatype invocation = Minute_tick datetime | Correction datetime

fun time_of :: "invocation \<Rightarrow> datetime" where
  "time_of (Minute_tick now) = now"
| "time_of (Correction now) = now"

fun invoke :: "invocation \<Rightarrow> world \<Rightarrow> world outcome" where
  "invoke (Minute_tick now) w = minute_tick_actions now w"
| "invoke (Correction now) w = run_correction_burst_once_per_hour now w"

fun invoke_all :: "invocation list \<Rightarrow> world \<Rightarrow> world outcome" where
  "invoke_all [] w = Returns w"
| "invoke_all (i # is) w = and_then (invoke i w) (invoke_all is)"

text \<open>The process where the thread stands: returned, or blocked on the lock.\<close>

fun final :: "world outcome \<Rightarrow> world" where
  "final (Returns w) = w"
| "final (Deadlock w) = w"

text \<open>
  The pulses of correction bursts in the trace: they are the A pulses of width
  \<^verbatim>\<open>CORRECTION_PULSE_WIDTH_SEC\<close>; the minute tick's A pulse is wider.
\<close>

definition correction_pulses_sent :: "world \<Rightarrow> nat" where
  "correction_pulses_sent w = count_list (trace w) (Pulse A CORRECTION_PULSE_WIDTH_SEC)"

subsection \<open>Examples\<close>

definition noon :: datetime where
  "noon = \<lparr>year = 2024, month = 1, day = 1, hour = 12, minute = 0\<rparr>"

definition fresh :: world where
  "fresh = initial File_not_found No_fault"

definition eleven_59 :: datetime where
  "eleven_59 = \<lparr>year = 2024, month = 1, day = 1, hour = 11, minute = 59\<rparr>"

text \<open>A dial two minutes behind, with a fast set requested.\<close>

definition two_behind :: world where
  "two_behind = fresh\<lparr>has_offset := True, offset_minutes := 718, fast_set_requested := True\<rparr>"

text \<open>Nothing happens around the loop.\<close>

definition quiet :: "nat \<Rightarrow> probe" where
  "quiet i = \<lparr>elapsed = 0, web = [], clock = noon\<rparr>"

text \<open>A second fast-set request arrives in the first pass; the second pass is too late.\<close>

definition request_then_timeout :: "nat \<Rightarrow> probe" where
  "request_then_timeout i =
     (if i = 0 then \<lparr>elapsed = 0, web = [Fast_set], clock = noon\<rparr>
      else \<lparr>elapsed = 2401, web = [], clock = noon\<rparr>)"

text \<open>The process \<open>request_then_timeout\<close> leaves of \<open>two_behind\<close>.\<close>

definition timed_out :: world where
  "timed_out = two_behind\<lparr>offset_minutes := 719, fast_set_status := Error Timeout_reached,
                STATE_FILE := Json (Some 719) (Some True),
                trace := [Pulse AB FAST_SET_PULSE_WIDTH_SEC]\<rparr>"

text \<open>A stop request arrives before the second pass.\<close>

definition stop_at_1 :: "nat \<Rightarrow> probe" where
  "stop_at_1 i = \<lparr>elapsed = 0, web = (if i = 1 then [Stop_correction] else []), clock = noon\<rparr>"

text \<open>The operator keeps declaring the dial an hour behind.\<close>

definition keep_behind :: "nat \<Rightarrow> probe" where
  "keep_behind i = \<lparr>elapsed = 0, web = [Set_dial noon 11 0], clock = noon\<rparr>"

text \<open>A second fast-set request arrives in the first pass; nothing else happens.\<close>

definition request_at_0 :: "nat \<Rightarrow> probe" where
  "request_at_0 i = \<lparr>elapsed = 0, web = (if i = 0 then [Fast_set] else []), clock = noon\<rparr>"

text \<open>The process \<open>request_at_0\<close> leaves of \<open>two_behind\<close>.\<close>

definition completed_pending :: world where
  "completed_pending = two_behind\<lparr>offset_minutes := 0, fast_set_requested := True,
                fast_set_status := Complete 2,
                STATE_FILE := Json (Some 0) (Some True),
                trace := [Pulse AB FAST_SET_PULSE_WIDTH_SEC, Pulse AB FAST_SET_PULSE_WIDTH_SEC]\<rparr>"

section \<open>Basic facts\<close>

declare fast_set_loop.simps [simp del]

lemma and_then_Returns [simp]: "and_then (Returns x) f = f x"
  by (simp add: and_then_def)

lemma and_then_Deadlock [simp]: "and_then (Deadlock w) f = Deadlock w"
  by (simp add: and_then_def)

lemma acquire_free [simp]: "\<not> LOCK w \<Longrightarrow> acquire w = Returns (w\<lparr>LOCK := True\<rparr>)"
  by (simp add: acquire_def)

lemma acquire_held [simp]: "LOCK w \<Longrightarrow> acquire w = Deadlock w"
  by (simp add: acquire_def)

lemma release_free [simp]: "\<not> LOCK (release w)"
  by (simp add: release_def)

lemma all_relays_off_LOCK [simp]: "LOCK (all_relays_off w) = LOCK w"
  by (simp add: all_relays_off_def)

lemma pulse_a_LOCK [simp]: "LOCK (pulse_a x w) = LOCK w"
  by (simp add: pulse_a_def Let_def)

lemma pulse_b_LOCK [simp]: "LOCK (pulse_b x w) = LOCK w"
  by (simp add: pulse_b_def Let_def)

lemma pulse_ab_LOCK [simp]: "LOCK (pulse_ab x w) = LOCK w"
  by (simp add: pulse_ab_def Let_def)

lemma correction_pulses_LOCK [simp]: "LOCK (correction_pulses n w) = LOCK w"
  by (induction n arbitrary: w) simp_all

lemma to_12h_minutes_mod [simp]: "to_12h_minutes now mod 720 = to_12h_minutes now"
  by (simp add: to_12h_minutes_def)

subsection \<open>With the lock free, the offset functions return\<close>

lemma persist_state_free:
  "\<not> LOCK w \<Longrightarrow> persist_state w =
     Returns (if fault w = No_fault
              then w\<lparr>STATE_FILE := Json (Some (offset_minutes w)) (Some (has_offset w))\<rparr>
              else w)"
  by (cases "fault w") (simp_all add: persist_state_def release_def Let_def)

lemma estimate_free:
  "\<not> LOCK w \<Longrightarrow> current_estimated_dial_minutes now w =
     Returns (if has_offset w then (to_12h_minutes now + offset_minutes w) mod 720
              else to_12h_minutes now)"
  by (simp add: current_estimated_dial_minutes_def)

text \<open>The plan depends on the offset alone, not on the time of the call.\<close>

lemma plan_free:
  "\<not> LOCK w \<Longrightarrow> compute_fast_or_stall_plan now w =
     Returns (let delta = (if has_offset w then (- offset_minutes w) mod 720 else 0)
              in if delta = 0 then (0, 0)
                 else if delta > 360 then (720 - delta, 0) else (0, delta))"
proof -
  assume free: "\<not> LOCK w"
  have "(to_12h_minutes now - (to_12h_minutes now + offset_minutes w) mod 720) mod 720
          = (- offset_minutes w) mod 720"
    by (simp add: mod_diff_right_eq)
  then show ?thesis
    using free by (simp add: compute_fast_or_stall_plan_def estimate_free Let_def)
qed

lemma set_dial_reading_free:
  "\<not> LOCK w \<Longrightarrow> set_dial_reading now hh mm w =
     persist_state (w\<lparr>offset_minutes := ((hh * 60 + mm) mod 720 - to_12h_minutes now) mod 720,
                     has_offset := True, stall_remaining_minutes := 0\<rparr>)"
  by (cases w) (simp add: set_dial_reading_def release_def Let_def)

lemma update_free:
  "\<not> LOCK w \<Longrightarrow> update_offset_after_stall_or_advance stalled advanced w =
     (if (stalled = 0 \<and> advanced = 0) \<or> \<not> has_offset w then Returns w
      else persist_state (w\<lparr>offset_minutes := (offset_minutes w - stalled + advanced) mod 720\<rparr>))"
  by (cases w) (simp add: update_offset_after_stall_or_advance_def release_def)

lemma update_returns:
  "\<not> LOCK w \<Longrightarrow> \<exists>w'. update_offset_after_stall_or_advance s a w = Returns w' \<and> \<not> LOCK w'"
  by (simp add: update_free persist_state_free)

lemma plan_returns:
  "\<not> LOCK w \<Longrightarrow> \<exists>stall adv. compute_fast_or_stall_plan now w = Returns (stall, adv)"
  by (simp add: plan_free Let_def)

lemma burst_returns:
  "\<not> LOCK w \<Longrightarrow> \<exists>w'. run_correction_burst_once_per_hour now w = Returns w' \<and> \<not> LOCK w'"
  by (simp add: run_correction_burst_once_per_hour_def)

lemma set_dial_reading_returns:
  "\<not> LOCK w \<Longrightarrow> \<exists>w'. set_dial_reading now hh mm w = Returns w' \<and> \<not> LOCK w'"
  by (simp add: set_dial_reading_free persist_state_free)

section \<open>The planner\<close>

text \<open>
  Claim C1. Whenever it is called, with \<open>delta\<close> the system minutes less the estimated
  dial minutes modulo 720, \<open>compute_fast_or_stall_plan\<close> returns \<open>(0, 0)\<close> when
  \<open>delta\<close> is 0, \<open>(720 - delta, 0)\<close> when \<open>delta\<close> exceeds 360, and \<open>(0, delta)\<close>
  otherwise; at \<open>delta = 360\<close> it returns \<open>(0, 360)\<close>: advance, not stall.
\<close>

theorem plan_by_delta:
  assumes "\<not> LOCK w"
    and "current_estimated_dial_minutes now w = Returns dial_m"
    and "delta = (to_12h_minutes now - dial_m) mod 720"
  shows "(delta = 0 \<longrightarrow> compute_fast_or_stall_plan now w = Returns (0, 0)) \<and>
         (delta > 360 \<longrightarrow> compute_fast_or_stall_plan now w = Returns (720 - delta, 0)) \<and>
         (delta \<noteq> 0 \<and> delta \<le> 360 \<longrightarrow> compute_fast_or_stall_plan now w = Returns (0, delta)) \<and>
         (delta = 360 \<longrightarrow> compute_fast_or_stall_plan now w = Returns (0, 360))"
  using assms by (simp add: compute_fast_or_stall_plan_def Let_def)

theorem plan_by_delta_witness:
  "\<not> LOCK (fresh\<lparr>has_offset := True, offset_minutes := 360\<rparr>) \<and>
   current_estimated_dial_minutes noon (fresh\<lparr>has_offset := True, offset_minutes := 360\<rparr>)
     = Returns 360 \<and>
   (360 :: int) = (to_12h_minutes noon - 360) mod 720 \<and>
   compute_fast_or_stall_plan noon (fresh\<lparr>has_offset := True, offset_minutes := 360\<rparr>)
     = Returns (0, 360)"
proof -
  let ?w = "fresh\<lparr>has_offset := True, offset_minutes := 360\<rparr>"
  have free: "\<not> LOCK ?w"
    by (simp add: fresh_def initial_def)
  have dial: "current_estimated_dial_minutes noon ?w = Returns 360"
    by (simp add: estimate_free free) (simp add: fresh_def initial_def to_12h_minutes_def noon_def)
  have delta: "(360 :: int) = (to_12h_minutes noon - 360) mod 720"
    by (simp add: to_12h_minutes_def noon_def)
  from plan_by_delta [OF free dial delta] free dial delta show ?thesis by simp
qed

section \<open>Setting the dial\<close>

text \<open>
  Claim C2. For every \<open>hh\<close> in 0..23 and \<open>mm\<close> in 0..59, \<open>set_dial_reading hh mm\<close>
  followed by \<open>current_estimated_dial_minutes\<close> at the same system time returns
  \<open>(hh * 60 + mm) mod 720\<close>; the call sets \<open>has_offset\<close> and resets
  \<open>stall_remaining_minutes\<close> to 0.
\<close>

theorem set_dial_then_estimate:
  assumes "0 \<le> hh" "hh \<le> 23" "0 \<le> mm" "mm \<le> 59" and "\<not> LOCK w"
  shows "\<exists>w'. set_dial_reading now hh mm w = Returns w' \<and>
           current_estimated_dial_minutes now w' = Returns ((hh * 60 + mm) mod 720) \<and>
           has_offset w' \<and> stall_remaining_minutes w' = 0"
proof -
  have "(to_12h_minutes now + ((hh * 60 + mm) mod 720 - to_12h_minutes now) mod 720) mod 720
          = (hh * 60 + mm) mod 720"
    by (simp add: mod_add_right_eq)
  then show ?thesis
    using assms(5) by (simp add: set_dial_reading_free persist_state_free estimate_free)
qed

theorem set_dial_then_estimate_witness:
  "(0 :: int) \<le> 11 \<and> (11 :: int) \<le> 23 \<and> (0 :: int) \<le> 55 \<and> (55 :: int) \<le> 59 \<and> \<not> LOCK fresh \<and>
   (\<exists>w'. set_dial_reading noon 11 55 fresh = Returns w' \<and>
         current_estimated_dial_minutes noon w' = Returns 715 \<and>
         has_offset w' \<and> stall_remaining_minutes w' = 0)"
proof -
  have free: "\<not> LOCK fresh"
    by (simp add: fresh_def initial_def)
  from set_dial_then_estimate [of 11 55 fresh noon] free show ?thesis by simp
qed

section \<open>Advancing the offset\<close>

lemma advance_steps:
  "\<not> LOCK w \<Longrightarrow> has_offset w \<Longrightarrow>
   \<exists>w'. times n (update_offset_after_stall_or_advance 0 1) w = Returns w' \<and>
        \<not> LOCK w' \<and> has_offset w' \<and>
        offset_minutes w' mod 720 = (offset_minutes w + int n) mod 720"
proof (induction n arbitrary: w)
  case 0
  then show ?case by simp
next
  case (Suc n)
  obtain w1 where w1: "update_offset_after_stall_or_advance 0 1 w = Returns w1"
    "\<not> LOCK w1" "has_offset w1" "offset_minutes w1 = (offset_minutes w + 1) mod 720"
    using Suc.prems by (simp add: update_free persist_state_free)
  from Suc.IH [OF w1(2) w1(3)] obtain w' where w':
    "times n (update_offset_after_stall_or_advance 0 1) w1 = Returns w'"
    "\<not> LOCK w'" "has_offset w'"
    "offset_minutes w' mod 720 = (offset_minutes w1 + int n) mod 720"
    by blast
  have "(offset_minutes w1 + int n) mod 720 = (offset_minutes w + int (Suc n)) mod 720"
    by (simp add: w1(4) mod_simps ac_simps)
  with w1 w' show ?case by simp
qed

text \<open>
  Claim C4. With \<open>has_offset\<close> true, the system time held fixed and the plan
  \<open>(0, advance)\<close>, calling \<open>update_offset_after_stall_or_advance 0 1\<close> exactly
  \<open>advance\<close> times leaves \<open>compute_fast_or_stall_plan\<close> returning \<open>(0, 0)\<close>.
\<close>

theorem advance_times_aligns:
  assumes "has_offset w" and "\<not> LOCK w"
    and "compute_fast_or_stall_plan now w = Returns (0, advance)"
  shows "\<exists>w'. times (nat advance) (update_offset_after_stall_or_advance 0 1) w = Returns w' \<and>
           compute_fast_or_stall_plan now w' = Returns (0, 0)"
proof -
  let ?d = "(- offset_minutes w) mod 720"
  have adv: "advance = ?d" and nonneg: "0 \<le> advance"
    using assms by (auto simp: plan_free Let_def split: if_splits)
  obtain w' where w':
    "times (nat advance) (update_offset_after_stall_or_advance 0 1) w = Returns w'"
    "\<not> LOCK w'" "has_offset w'"
    "offset_minutes w' mod 720 = (offset_minutes w + int (nat advance)) mod 720"
    using advance_steps [OF assms(2) assms(1)] by blast
  have "(offset_minutes w + ?d) mod 720 = 0"
    by (metis add.right_inverse mod_add_right_eq mod_0)
  with w'(4) nonneg adv have "offset_minutes w' mod 720 = 0" by simp
  then have "(- offset_minutes w') mod 720 = 0"
    by (simp add: mod_minus_eq zmod_zminus1_eq_if)
  with w' show ?thesis by (simp add: plan_free)
qed

theorem advance_times_aligns_witness:
  "has_offset (fresh\<lparr>has_offset := True, offset_minutes := 715\<rparr>) \<and>
   \<not> LOCK (fresh\<lparr>has_offset := True, offset_minutes := 715\<rparr>) \<and>
   compute_fast_or_stall_plan noon (fresh\<lparr>has_offset := True, offset_minutes := 715\<rparr>)
     = Returns (0, 5) \<and>
   (\<exists>w'. times (nat 5) (update_offset_after_stall_or_advance 0 1)
           (fresh\<lparr>has_offset := True, offset_minutes := 715\<rparr>) = Returns w' \<and>
         compute_fast_or_stall_plan noon w' = Returns (0, 0))"
proof -
  let ?w = "fresh\<lparr>has_offset := True, offset_minutes := 715\<rparr>"
  have has: "has_offset ?w" by simp
  have free: "\<not> LOCK ?w"
    by (simp add: fresh_def initial_def)
  have plan: "compute_fast_or_stall_plan noon ?w = Returns (0, 5)"
    by (simp add: plan_free free)
  from advance_times_aligns [OF has free plan] has free plan show ?thesis by simp
qed

section \<open>The offset stays normalized\<close>

lemma restore_state_free:
  "\<not> LOCK w \<Longrightarrow> \<exists>w'. restore_state w = Returns w' \<and> \<not> LOCK w' \<and>
     (offset_minutes w' = offset_minutes w \<or> normalized w')"
  by (cases "STATE_FILE w") (simp_all add: restore_state_def release_def normalized_def)

lemma mutate_free:
  "\<not> LOCK w \<Longrightarrow> \<exists>w'. mutate m w = Returns w' \<and> \<not> LOCK w' \<and>
     (offset_minutes w' = offset_minutes w \<or> normalized w')"
proof (cases m)
  case (Set_dial_reading now hh mm)
  assume "\<not> LOCK w"
  then show ?thesis
    using Set_dial_reading by (simp add: set_dial_reading_free persist_state_free normalized_def)
next
  case (Update_offset stalled advanced)
  assume "\<not> LOCK w"
  then show ?thesis
    using Update_offset by (simp add: update_free persist_state_free normalized_def)
next
  case (Restore_state f)
  assume "\<not> LOCK w"
  then show ?thesis
    using Restore_state restore_state_free [of "w\<lparr>STATE_FILE := f\<rparr>"] by simp
qed

lemma mutate_all_free:
  "\<not> LOCK w \<Longrightarrow> \<exists>w'. mutate_all ms w = Returns w' \<and> \<not> LOCK w' \<and>
     (offset_minutes w' = offset_minutes w \<or> normalized w')"
proof (induction ms arbitrary: w)
  case Nil
  then show ?case by simp
next
  case (Cons m ms)
  from mutate_free [OF Cons.prems, of m] obtain w1 where w1:
    "mutate m w = Returns w1" "\<not> LOCK w1"
    "offset_minutes w1 = offset_minutes w \<or> normalized w1" by blast
  from Cons.IH [OF w1(2)] obtain w' where w':
    "mutate_all ms w1 = Returns w'" "\<not> LOCK w'"
    "offset_minutes w' = offset_minutes w1 \<or> normalized w'" by blast
  have "offset_minutes w' = offset_minutes w \<or> normalized w'"
    using w1(3) w'(3) by (auto simp: normalized_def)
  with w1 w' show ?case by simp
qed

text \<open>
  Claim C5. \<open>offset_minutes\<close> is always in 0..719: each of \<open>set_dial_reading\<close>,
  \<open>update_offset_after_stall_or_advance\<close> and \<open>restore_state\<close> that writes it writes
  a value reduced modulo 720. After any sequence of them, from any state, the offset
  is in range or has not been written; so from a state where it is in range, as the
  initial one, it is in range after the sequence.
\<close>

theorem offset_stays_normalized:
  assumes "\<not> LOCK w"
  shows "\<exists>w'. mutate_all ms w = Returns w' \<and>
           (offset_minutes w' = offset_minutes w \<or> normalized w') \<and>
           (normalized w \<longrightarrow> normalized w')"
  using mutate_all_free [OF assms, of ms] by (auto simp: normalized_def)

theorem offset_stays_normalized_witness:
  "\<not> LOCK fresh \<and> normalized fresh \<and>
   (\<exists>w'. mutate_all [Restore_state (Json (Some (-5)) (Some True)), Update_offset 1 0,
                     Set_dial_reading noon 23 59] fresh = Returns w' \<and>
         normalized w')"
proof -
  have free: "\<not> LOCK fresh"
    by (simp add: fresh_def initial_def)
  have norm: "normalized fresh"
    by (simp add: fresh_def initial_def normalized_def)
  from offset_stays_normalized [OF free] free norm show ?thesis by blast
qed

section \<open>Fast-set sessions\<close>

subsection \<open>With the lock free, a session returns\<close>

lemma handle_returns:
  "\<not> LOCK w \<Longrightarrow> \<exists>w'. handle r w = Returns w' \<and> \<not> LOCK w'"
proof (cases r)
  case (Set_dial now hh mm)
  assume "\<not> LOCK w"
  then show ?thesis
    using Set_dial set_dial_reading_returns
    by (cases "parse_hhmm hh mm") (auto simp: set_dial_def)
next
  case Fast_set
  assume "\<not> LOCK w"
  then show ?thesis using Fast_set by (simp add: fast_set_def)
next
  case Stop_correction
  assume "\<not> LOCK w"
  then show ?thesis using Stop_correction by (simp add: stop_correction_def)
next
  case (Pulse_test now which w0)
  assume "\<not> LOCK w"
  then show ?thesis
    using Pulse_test burst_returns by (simp add: pulse_test_def Let_def)
qed

lemma handle_all_returns:
  "\<not> LOCK w \<Longrightarrow> \<exists>w'. handle_all rs w = Returns w' \<and> \<not> LOCK w'"
proof (induction rs arbitrary: w)
  case Nil
  then show ?case by simp
next
  case (Cons r rs)
  from handle_returns [OF Cons.prems, of r] obtain w1
    where "handle r w = Returns w1" "\<not> LOCK w1" by blast
  with Cons.IH [of w1] show ?case by simp
qed

lemma fast_set_loop_returns:
  "\<not> LOCK w \<Longrightarrow> \<exists>e w'. fast_set_loop env n w = Returns (e, w') \<and> \<not> LOCK w'"
proof (induction "FAST_SET_MAX_PULSES - n" arbitrary: n w)
  case 0
  then have cap: "n \<ge> FAST_SET_MAX_PULSES" by simp
  obtain w0 where w0: "handle_all (web (env n)) w = Returns w0" "\<not> LOCK w0"
    using handle_all_returns [OF "0.prems"] by blast
  obtain stall adv where plan:
    "compute_fast_or_stall_plan (clock (env n)) (release (w0\<lparr>LOCK := True\<rparr>)) = Returns (stall, adv)"
    using plan_returns [OF release_free] by blast
  show ?case
    using w0 plan cap "0.prems"
    by (subst fast_set_loop.simps) (simp add: Let_def)
next
  case (Suc k)
  obtain w0 where w0: "handle_all (web (env n)) w = Returns w0" "\<not> LOCK w0"
    using handle_all_returns [OF Suc.prems] by blast
  let ?w2 = "release (w0\<lparr>LOCK := True\<rparr>)"
  obtain stall adv where plan:
    "compute_fast_or_stall_plan (clock (env n)) ?w2 = Returns (stall, adv)"
    using plan_returns [OF release_free] by blast
  obtain w3 where w3:
    "update_offset_after_stall_or_advance 0 1 (pulse_ab FAST_SET_PULSE_WIDTH_SEC ?w2) = Returns w3"
    "\<not> LOCK w3"
    using update_returns [of "pulse_ab FAST_SET_PULSE_WIDTH_SEC ?w2" 0 1] by auto
  have k: "k = FAST_SET_MAX_PULSES - (n + 1)" using Suc.hyps(2) by simp
  have rec: "\<exists>e w'. fast_set_loop env (n + 1) v = Returns (e, w') \<and> \<not> LOCK w'" if "\<not> LOCK v" for v
    using Suc.hyps(1) [OF k that] .
  from rec [OF w3(2)] obtain e1 v1 where r1:
    "fast_set_loop env (n + 1) w3 = Returns (e1, v1)" "\<not> LOCK v1" by blast
  from rec [of "release (w3\<lparr>LOCK := True, fast_set_status := Advancing (n + 1) adv\<rparr>)"]
  obtain e2 v2 where r2:
    "fast_set_loop env (n + 1) (release (w3\<lparr>LOCK := True, fast_set_status := Advancing (n + 1) adv\<rparr>))
       = Returns (e2, v2)" "\<not> LOCK v2" by auto
  show ?case
    using w0 plan w3 r1 r2 Suc.prems
    by (subst fast_set_loop.simps) (simp add: Let_def)
qed

lemma fast_set_try_returns:
  "\<not> LOCK w \<Longrightarrow> \<exists>e w'. fast_set_try now env w = Returns (e, w') \<and> \<not> LOCK w'"
proof -
  assume free: "\<not> LOCK w"
  obtain stall adv where plan: "compute_fast_or_stall_plan now w = Returns (stall, adv)"
    using plan_returns [OF free] by blast
  obtain e v where loop:
    "fast_set_loop env 0 (release (w\<lparr>LOCK := True, fast_set_status := Running_dynamic\<rparr>)) = Returns (e, v)"
    "\<not> LOCK v"
    using fast_set_loop_returns [OF release_free] by blast
  show ?thesis
    using free plan loop by (simp add: fast_set_try_def)
qed

subsection \<open>Without a new request, none is pending at the end\<close>

lemma fast_set_requested_correction_pulses [simp]:
  "fast_set_requested (correction_pulses n w) = fast_set_requested w"
  by (induction n arbitrary: w) (simp_all add: pulse_a_def Let_def)

lemma handle_keeps_unrequested:
  "r \<noteq> Fast_set \<Longrightarrow> \<not> LOCK w \<Longrightarrow> \<not> fast_set_requested w \<Longrightarrow>
   \<exists>w'. handle r w = Returns w' \<and> \<not> LOCK w' \<and> \<not> fast_set_requested w'"
proof (cases r)
  case (Set_dial now hh mm)
  assume "\<not> LOCK w" "\<not> fast_set_requested w"
  then show ?thesis
    using Set_dial
    by (cases "parse_hhmm hh mm")
       (auto simp: set_dial_def set_dial_reading_free persist_state_free)
next
  case Fast_set
  assume "r \<noteq> Fast_set"
  then show ?thesis using Fast_set by simp
next
  case Stop_correction
  assume "\<not> LOCK w"
  then show ?thesis
    using Stop_correction by (simp add: stop_correction_def all_relays_off_def release_def)
next
  case (Pulse_test now which w0)
  assume "\<not> LOCK w" "\<not> fast_set_requested w"
  then show ?thesis
    using Pulse_test
    by (simp add: pulse_test_def run_correction_burst_once_per_hour_def Let_def
          pulse_a_def pulse_b_def pulse_ab_def release_def)
qed

lemma handle_all_keeps_unrequested:
  "Fast_set \<notin> set rs \<Longrightarrow> \<not> LOCK w \<Longrightarrow> \<not> fast_set_requested w \<Longrightarrow>
   \<exists>w'. handle_all rs w = Returns w' \<and> \<not> LOCK w' \<and> \<not> fast_set_requested w'"
proof (induction rs arbitrary: w)
  case Nil
  then show ?case by simp
next
  case (Cons r rs)
  then have "r \<noteq> Fast_set" and rest: "Fast_set \<notin> set rs" by auto
  from handle_keeps_unrequested [OF this(1) Cons.prems(2,3)] obtain w1
    where w1: "handle r w = Returns w1" "\<not> LOCK w1" "\<not> fast_set_requested w1" by blast
  from Cons.IH [OF rest w1(2,3)] w1(1) show ?case by simp
qed

lemma fast_set_loop_keeps_unrequested:
  assumes none: "\<forall>i. Fast_set \<notin> set (web (env i))"
  shows "\<not> LOCK w \<Longrightarrow> \<not> fast_set_requested w \<Longrightarrow>
   \<exists>e w'. fast_set_loop env n w = Returns (e, w') \<and> \<not> fast_set_requested w'"
proof (induction "FAST_SET_MAX_PULSES - n" arbitrary: n w)
  case 0
  then have cap: "n \<ge> FAST_SET_MAX_PULSES" by simp
  obtain w0 where w0: "handle_all (web (env n)) w = Returns w0" "\<not> LOCK w0"
    "\<not> fast_set_requested w0"
    using handle_all_keeps_unrequested [OF _ "0.prems"] none by blast
  obtain stall adv where plan:
    "compute_fast_or_stall_plan (clock (env n)) (release (w0\<lparr>LOCK := True\<rparr>)) = Returns (stall, adv)"
    using plan_returns [OF release_free] by blast
  show ?case
    using w0 plan cap "0.prems"
    by (subst fast_set_loop.simps) (simp add: Let_def release_def all_relays_off_def)
next
  case (Suc k)
  obtain w0 where w0: "handle_all (web (env n)) w = Returns w0" "\<not> LOCK w0"
    "\<not> fast_set_requested w0"
    using handle_all_keeps_unrequested [OF _ Suc.prems] none by blast
  let ?w2 = "release (w0\<lparr>LOCK := True\<rparr>)"
  obtain stall adv where plan:
    "compute_fast_or_stall_plan (clock (env n)) ?w2 = Returns (stall, adv)"
    using plan_returns [OF release_free] by blast
  have "\<exists>w3. update_offset_after_stall_or_advance 0 1 (pulse_ab FAST_SET_PULSE_WIDTH_SEC ?w2)
            = Returns w3 \<and> \<not> LOCK w3 \<and> \<not> fast_set_requested w3"
    using w0(3) by (simp add: update_free persist_state_free pulse_ab_def release_def Let_def)
  then obtain w3 where w3:
    "update_offset_after_stall_or_advance 0 1 (pulse_ab FAST_SET_PULSE_WIDTH_SEC ?w2) = Returns w3"
    "\<not> LOCK w3" "\<not> fast_set_requested w3"
    by blast
  have k: "k = FAST_SET_MAX_PULSES - (n + 1)" using Suc.hyps(2) by simp
  have rec: "\<exists>e w'. fast_set_loop env (n + 1) v = Returns (e, w') \<and> \<not> fast_set_requested w'"
    if "\<not> LOCK v" "\<not> fast_set_requested v" for v
    using Suc.hyps(1) [OF k that] .
  from rec [OF w3(2,3)] obtain e1 v1 where r1:
    "fast_set_loop env (n + 1) w3 = Returns (e1, v1)" "\<not> fast_set_requested v1" by blast
  from rec [of "release (w3\<lparr>LOCK := True, fast_set_status := Advancing (n + 1) adv\<rparr>)"] w3(3)
  obtain e2 v2 where r2:
    "fast_set_loop env (n + 1) (release (w3\<lparr>LOCK := True, fast_set_status := Advancing (n + 1) adv\<rparr>))
       = Returns (e2, v2)" "\<not> fast_set_requested v2" by (auto simp: release_def)
  show ?case
    using w0 plan w3 r1 r2 Suc.prems
    by (subst fast_set_loop.simps) (simp add: Let_def release_def all_relays_off_def)
qed

lemma fast_set_try_keeps_unrequested:
  assumes none: "\<forall>i. Fast_set \<notin> set (web (env i))"
    and free: "\<not> LOCK w" and unreq: "\<not> fast_set_requested w"
  shows "\<exists>e w'. fast_set_try now env w = Returns (e, w') \<and> \<not> fast_set_requested w'"
proof -
  obtain stall adv where plan: "compute_fast_or_stall_plan now w = Returns (stall, adv)"
    using plan_returns [OF free] by blast
  obtain e v where loop:
    "fast_set_loop env 0 (release (w\<lparr>LOCK := True, fast_set_status := Running_dynamic\<rparr>)) = Returns (e, v)"
    "\<not> fast_set_requested v"
    using fast_set_loop_keeps_unrequested [OF none release_free, of "w\<lparr>LOCK := True, fast_set_status := Running_dynamic\<rparr>" 0]
      unreq by (auto simp: release_def)
  show ?thesis
    using free unreq plan loop by (simp add: fast_set_try_def release_def)
qed

text \<open>
  Claim C6, as amended. Every way a fast-set session ends (completed, handed over to
  stalling, cancelled, timed out, pulse cap exceeded) leaves both relays off and
  \<open>fast_set_running\<close> and \<open>fast_set_cancel_requested\<close> cleared, whatever the clocks
  read and whatever the web thread is asked meanwhile; and when the web thread served
  no fast-set request during the session, \<open>fast_set_requested\<close> is clear as well: the
  session is idle.
\<close>

theorem fast_set_session_ends_idle:
  assumes "\<not> LOCK w" and "fast_set_requested w" and "\<not> fast_set_running w"
  shows "\<exists>w'. maybe_handle_fast_set now env w = Returns w' \<and>
           \<not> fast_set_running w' \<and> \<not> fast_set_cancel_requested w' \<and>
           \<not> A_RELAY w' \<and> \<not> B_RELAY w' \<and>
           ((\<forall>i. Fast_set \<notin> set (web (env i))) \<longrightarrow> \<not> fast_set_requested w')"
proof -
  let ?w1 = "release (w\<lparr>LOCK := True, fast_set_requested := False, fast_set_running := True,
                fast_set_cancel_requested := False, fast_set_status := Starting\<rparr>)"
  obtain e w2 where body: "fast_set_try now env ?w1 = Returns (e, w2)" "\<not> LOCK w2"
    using fast_set_try_returns [OF release_free] by blast
  have "\<not> fast_set_requested w2" if "\<forall>i. Fast_set \<notin> set (web (env i))"
    using fast_set_try_keeps_unrequested [OF that release_free,
        of "w\<lparr>LOCK := True, fast_set_requested := False, fast_set_running := True,
              fast_set_cancel_requested := False, fast_set_status := Starting\<rparr>" now]
      body(1)
    by (simp add: release_def)
  then show ?thesis
    using assms body
    by (cases e) (simp_all add: maybe_handle_fast_set_def all_relays_off_def release_def)
qed

theorem fast_set_session_ends_idle_witness:
  "\<not> LOCK two_behind \<and> fast_set_requested two_behind \<and> \<not> fast_set_running two_behind \<and>
   (\<forall>i. Fast_set \<notin> set (web (stop_at_1 i))) \<and>
   (\<exists>w'. maybe_handle_fast_set noon stop_at_1 two_behind = Returns w' \<and>
         \<not> fast_set_running w' \<and> \<not> fast_set_cancel_requested w' \<and>
         \<not> A_RELAY w' \<and> \<not> B_RELAY w' \<and> \<not> fast_set_requested w')"
proof -
  have h: "\<not> LOCK two_behind" "fast_set_requested two_behind" "\<not> fast_set_running two_behind"
    by (simp_all add: two_behind_def fresh_def initial_def)
  have none: "\<forall>i. Fast_set \<notin> set (web (stop_at_1 i))"
    by (simp add: stop_at_1_def)
  from fast_set_session_ends_idle [OF h, of noon stop_at_1] h none show ?thesis by simp
qed

subsection \<open>Each way out is taken\<close>

lemmas run_defs = maybe_handle_fast_set_def fast_set_try_def fast_set_loop.simps plan_free
        update_free persist_state_free two_behind_def fresh_def
        initial_def fast_set_def stop_correction_def release_def all_relays_off_def pulse_ab_def Let_def
        FAST_SET_MAX_SECONDS_def FAST_SET_MAX_PULSES_def

lemma exit_completed:
  "\<exists>w'. maybe_handle_fast_set noon quiet two_behind = Returns w' \<and>
     fast_set_status w' = Complete 2"
  by (simp add: run_defs quiet_def)

lemma exit_stalling:
  "\<exists>w'. maybe_handle_fast_set noon quiet (two_behind\<lparr>offset_minutes := 5\<rparr>) = Returns w' \<and>
     fast_set_status w' = Will_stall 5 \<and> stall_remaining_minutes w' = 5 \<and> trace w' = []"
  by (simp add: run_defs quiet_def)

lemma exit_cancelled:
  "\<exists>w'. maybe_handle_fast_set noon stop_at_1 two_behind = Returns w' \<and>
     fast_set_status w' = Cancelled_by_user"
  by (simp add: run_defs stop_at_1_def)

lemma exit_timeout:
  "\<exists>w'. maybe_handle_fast_set noon request_then_timeout two_behind = Returns w' \<and>
     fast_set_status w' = Error Timeout_reached"
  by (simp add: run_defs request_then_timeout_def)

lemma keep_behind_pass:
  "\<not> LOCK w \<Longrightarrow> \<exists>w0. handle_all (web (keep_behind n)) w = Returns w0 \<and> \<not> LOCK w0 \<and>
     fast_set_cancel_requested w0 = fast_set_cancel_requested w \<and>
     compute_fast_or_stall_plan (clock (keep_behind n)) (release (w0\<lparr>LOCK := True\<rparr>)) = Returns (0, 60)"
  by (simp add: keep_behind_def set_dial_def parse_hhmm_def set_dial_reading_free
        persist_state_free plan_free to_12h_minutes_def noon_def release_def)

lemma keep_behind_loop:
  "\<not> LOCK w \<Longrightarrow> \<not> fast_set_cancel_requested w \<Longrightarrow> n \<le> FAST_SET_MAX_PULSES \<Longrightarrow>
   \<exists>w'. fast_set_loop keep_behind n w = Returns (Raised Pulse_cap_reached, w')"
proof (induction "FAST_SET_MAX_PULSES - n" arbitrary: n w)
  case 0
  then have cap: "n \<ge> FAST_SET_MAX_PULSES" by simp
  obtain w0 where w0: "handle_all (web (keep_behind n)) w = Returns w0" "\<not> LOCK w0"
    "\<not> fast_set_cancel_requested w0"
    "compute_fast_or_stall_plan (clock (keep_behind n)) (release (w0\<lparr>LOCK := True\<rparr>)) = Returns (0, 60)"
    using keep_behind_pass [OF "0.prems"(1), of n] "0.prems"(2) by auto
  have quick: "\<not> elapsed (keep_behind n) > FAST_SET_MAX_SECONDS"
    by (simp add: keep_behind_def FAST_SET_MAX_SECONDS_def)
  show ?case
    using w0 cap quick by (subst fast_set_loop.simps) (simp add: Let_def)
next
  case (Suc k)
  then have below: "\<not> n \<ge> FAST_SET_MAX_PULSES" and next_ok: "n + 1 \<le> FAST_SET_MAX_PULSES"
    and k: "k = FAST_SET_MAX_PULSES - (n + 1)" by simp_all
  obtain w0 where w0: "handle_all (web (keep_behind n)) w = Returns w0" "\<not> LOCK w0"
    "\<not> fast_set_cancel_requested w0"
    "compute_fast_or_stall_plan (clock (keep_behind n)) (release (w0\<lparr>LOCK := True\<rparr>)) = Returns (0, 60)"
    using keep_behind_pass [OF Suc.prems(1), of n] Suc.prems(2) by auto
  have quick: "\<not> elapsed (keep_behind n) > FAST_SET_MAX_SECONDS"
    by (simp add: keep_behind_def FAST_SET_MAX_SECONDS_def)
  let ?w2 = "release (w0\<lparr>LOCK := True\<rparr>)"
  have "\<exists>w3. update_offset_after_stall_or_advance 0 1 (pulse_ab FAST_SET_PULSE_WIDTH_SEC ?w2)
            = Returns w3 \<and> \<not> LOCK w3 \<and> \<not> fast_set_cancel_requested w3"
    using w0(3) by (simp add: update_free persist_state_free pulse_ab_def release_def Let_def)
  then obtain w3 where w3:
    "update_offset_after_stall_or_advance 0 1 (pulse_ab FAST_SET_PULSE_WIDTH_SEC ?w2) = Returns w3"
    "\<not> LOCK w3" "\<not> fast_set_cancel_requested w3"
    by blast
  have rec: "\<exists>w'. fast_set_loop keep_behind (n + 1) v = Returns (Raised Pulse_cap_reached, w')"
    if "\<not> LOCK v" "\<not> fast_set_cancel_requested v" for v
    using Suc.hyps(1) [OF k that next_ok] .
  from rec [OF w3(2,3)] obtain v1 where r1:
    "fast_set_loop keep_behind (n + 1) w3 = Returns (Raised Pulse_cap_reached, v1)" by blast
  from rec [of "release (w3\<lparr>LOCK := True, fast_set_status := Advancing (n + 1) 60\<rparr>)"] w3(3)
  obtain v2 where r2:
    "fast_set_loop keep_behind (n + 1) (release (w3\<lparr>LOCK := True, fast_set_status := Advancing (n + 1) 60\<rparr>))
       = Returns (Raised Pulse_cap_reached, v2)" by (auto simp: release_def)
  show ?case
    using w0 w3 r1 r2 below quick
    by (subst fast_set_loop.simps) (simp add: Let_def)
qed

lemma exit_pulse_cap:
  "\<exists>w'. maybe_handle_fast_set noon keep_behind two_behind = Returns w' \<and>
     fast_set_status w' = Error Pulse_cap_reached"
proof -
  let ?w = "release (two_behind\<lparr>LOCK := True, fast_set_requested := False, fast_set_running := True,
              fast_set_cancel_requested := False, fast_set_status := Starting,
              LOCK := True, fast_set_status := Running_dynamic\<rparr>)"
  obtain w' where loop: "fast_set_loop keep_behind 0 ?w = Returns (Raised Pulse_cap_reached, w')"
    using keep_behind_loop [of ?w 0] by (auto simp: release_def)
  have "\<not> LOCK w'"
    using fast_set_loop_returns [of ?w keep_behind 0] loop by simp
  then show ?thesis
    using loop
    by (simp add: maybe_handle_fast_set_def fast_set_try_def plan_free two_behind_def fresh_def
          initial_def release_def all_relays_off_def Let_def)
qed

text \<open>
  Claim C6, as stated, fails: a session does not always end idle. A fast-set request
  served during its first pass is still pending when the session has completed, and
  the next poll, with no new request, claims it and starts a session again.
\<close>

theorem fast_set_session_counterexample:
  "maybe_handle_fast_set noon request_at_0 two_behind = Returns completed_pending \<and>
   fast_set_requested completed_pending \<and>
   maybe_handle_fast_set noon quiet completed_pending =
     Returns (completed_pending\<lparr>fast_set_requested := False,
                fast_set_status := Already_aligned\<rparr>)"
proof -
  have session: "maybe_handle_fast_set noon request_at_0 two_behind = Returns completed_pending"
    by (simp add: run_defs request_at_0_def completed_pending_def)
  have pending: "fast_set_requested completed_pending"
    by (simp add: completed_pending_def)
  have again: "maybe_handle_fast_set noon quiet completed_pending =
     Returns (completed_pending\<lparr>fast_set_requested := False,
                fast_set_status := Already_aligned\<rparr>)"
    by (simp add: run_defs quiet_def completed_pending_def)
  from session pending again show ?thesis by simp
qed

subsection \<open>A second request\<close>

text \<open>
  Claim C3, as amended. While a fast-set session is running, a second fast-set
  request starts no session of its own and sends no pulse: the handler sets
  \<open>fast_set_requested\<close>, clears \<open>fast_set_cancel_requested\<close> and overwrites
  \<open>fast_set_status\<close>, leaving \<open>fast_set_running\<close> and everything else as it was, and
  a poll by \<open>maybe_handle_fast_set\<close> while \<open>fast_set_running\<close> is set changes nothing.
\<close>

theorem second_request_while_running:
  assumes "fast_set_running w" and "\<not> LOCK w"
  shows "\<exists>w'. fast_set w = Returns w' \<and>
           w' = w\<lparr>fast_set_requested := True, fast_set_cancel_requested := False,
                  fast_set_status := Requested\<rparr> \<and>
           maybe_handle_fast_set now env w' = Returns w'"
  using assms
  by (cases w) (simp add: fast_set_def maybe_handle_fast_set_def release_def)

theorem second_request_while_running_witness:
  "fast_set_running (fresh\<lparr>fast_set_running := True\<rparr>) \<and>
   \<not> LOCK (fresh\<lparr>fast_set_running := True\<rparr>) \<and>
   (\<exists>w'. fast_set (fresh\<lparr>fast_set_running := True\<rparr>) = Returns w' \<and>
         w' = fresh\<lparr>fast_set_running := True, fast_set_requested := True,
                 fast_set_cancel_requested := False, fast_set_status := Requested\<rparr> \<and>
         maybe_handle_fast_set noon quiet w' = Returns w')"
proof -
  have run: "fast_set_running (fresh\<lparr>fast_set_running := True\<rparr>)" by simp
  have free: "\<not> LOCK (fresh\<lparr>fast_set_running := True\<rparr>)"
    by (simp add: fresh_def initial_def)
  from second_request_while_running [OF run free, of noon quiet] run free show ?thesis by simp
qed

text \<open>
  Claim C3, as stated, fails. The handler changes the session's fields of a running
  session. And the request is kept: asked during the first pass of a session that
  then times out, it is still pending when that session has ended, and the next poll,
  with no new request, claims it and pulses again.
\<close>

theorem second_request_counterexample:
  "fast_set (fresh\<lparr>fast_set_running := True\<rparr>) =
     Returns (fresh\<lparr>fast_set_running := True, fast_set_requested := True,
                fast_set_status := Requested\<rparr>) \<and>
   maybe_handle_fast_set noon request_then_timeout two_behind = Returns timed_out \<and>
   fast_set_requested timed_out \<and>
   maybe_handle_fast_set noon quiet timed_out =
     Returns (timed_out\<lparr>offset_minutes := 0, fast_set_requested := False,
                fast_set_status := Complete 1,
                STATE_FILE := Json (Some 0) (Some True),
                trace := [Pulse AB FAST_SET_PULSE_WIDTH_SEC, Pulse AB FAST_SET_PULSE_WIDTH_SEC]\<rparr>)"
proof -
  have handler: "fast_set (fresh\<lparr>fast_set_running := True\<rparr>) =
     Returns (fresh\<lparr>fast_set_running := True, fast_set_requested := True,
                fast_set_status := Requested\<rparr>)"
    by (simp add: fast_set_def fresh_def initial_def release_def)
  have first: "maybe_handle_fast_set noon request_then_timeout two_behind = Returns timed_out"
    by (simp add: run_defs request_then_timeout_def timed_out_def)
  have pending: "fast_set_requested timed_out"
    by (simp add: timed_out_def two_behind_def)
  have second: "maybe_handle_fast_set noon quiet timed_out =
     Returns (timed_out\<lparr>offset_minutes := 0, fast_set_requested := False,
                fast_set_status := Complete 1,
                STATE_FILE := Json (Some 0) (Some True),
                trace := [Pulse AB FAST_SET_PULSE_WIDTH_SEC, Pulse AB FAST_SET_PULSE_WIDTH_SEC]\<rparr>)"
    by (simp add: run_defs quiet_def timed_out_def)
  from handler first pending second show ?thesis by simp
qed

subsection \<open>Stop\<close>

text \<open>
  Claim C10. A stop request discards a fast-set request not yet claimed: the handler
  clears \<open>fast_set_requested\<close>, sets \<open>fast_set_cancel_requested\<close> and turns both
  relays off, and the next poll of \<open>maybe_handle_fast_set\<close> starts no session: it
  leaves the process as it is.
\<close>

theorem stop_discards_pending_request:
  assumes "\<not> LOCK w"
  shows "\<exists>w'. stop_correction w = Returns w' \<and>
           \<not> fast_set_requested w' \<and> fast_set_cancel_requested w' \<and>
           \<not> A_RELAY w' \<and> \<not> B_RELAY w' \<and>
           maybe_handle_fast_set now env w' = Returns w'"
  using assms
  by (cases w) (simp add: stop_correction_def maybe_handle_fast_set_def all_relays_off_def release_def)

theorem stop_discards_pending_request_witness:
  "\<not> LOCK two_behind \<and>
   (\<exists>w'. stop_correction two_behind = Returns w' \<and>
         \<not> fast_set_requested w' \<and> fast_set_cancel_requested w' \<and>
         \<not> A_RELAY w' \<and> \<not> B_RELAY w' \<and>
         maybe_handle_fast_set noon quiet w' = Returns w')"
proof -
  have free: "\<not> LOCK two_behind"
    by (simp add: two_behind_def fresh_def initial_def)
  from stop_discards_pending_request [OF free, of noon quiet] free show ?thesis by simp
qed

section \<open>The correction burst\<close>

lemma minute_tick_free:
  "\<not> LOCK w \<Longrightarrow> minute_tick_actions now w =
     (if last_minute_tick w = Some (minute_key now) then Returns w
      else if fast_set_running w then Returns (w\<lparr>last_minute_tick := Some (minute_key now)\<rparr>)
      else if stall_remaining_minutes w > 0 then
        Deadlock (w\<lparr>last_minute_tick := Some (minute_key now),
                    stall_remaining_minutes := stall_remaining_minutes w - 1,
                    LOCK := True\<rparr>)
      else let w3 = pulse_a MINUTE_PULSE_WIDTH_SEC (w\<lparr>last_minute_tick := Some (minute_key now)\<rparr>);
               w4 = (if 0 \<le> minute now \<and> minute now \<le> 49
                     then pulse_b MINUTE_PULSE_WIDTH_SEC w3 else w3)
           in if minute now = 59 then run_correction_burst_once_per_hour now w4
              else Returns w4)"
  by (cases w)
     (simp add: minute_tick_actions_def update_offset_after_stall_or_advance_def release_def Let_def)

lemma sent_correction_pulses [simp]:
  "correction_pulses_sent (correction_pulses n w) = correction_pulses_sent w + n"
  by (induction n arbitrary: w) (simp_all add: correction_pulses_sent_def pulse_a_def Let_def)

lemma last_correction_hour_correction_pulses [simp]:
  "last_correction_hour (correction_pulses n w) = last_correction_hour w"
  by (induction n arbitrary: w) (simp_all add: pulse_a_def Let_def)

lemma sent_unchanged [simp]:
  "correction_pulses_sent (w\<lparr>last_minute_tick := x\<rparr>) = correction_pulses_sent w"
  "correction_pulses_sent (w\<lparr>last_correction_hour := y\<rparr>) = correction_pulses_sent w"
  "correction_pulses_sent (w\<lparr>stall_remaining_minutes := s\<rparr>) = correction_pulses_sent w"
  "correction_pulses_sent (w\<lparr>LOCK := b\<rparr>) = correction_pulses_sent w"
  "correction_pulses_sent (pulse_a MINUTE_PULSE_WIDTH_SEC w) = correction_pulses_sent w"
  "correction_pulses_sent (pulse_b z w) = correction_pulses_sent w"
  by (simp_all add: correction_pulses_sent_def pulse_a_def pulse_b_def Let_def
        MINUTE_PULSE_WIDTH_SEC_def CORRECTION_PULSE_WIDTH_SEC_def)

lemma last_correction_hour_pulse [simp]:
  "last_correction_hour (pulse_a z w) = last_correction_hour w"
  "last_correction_hour (pulse_b z w) = last_correction_hour w"
  by (simp_all add: pulse_a_def pulse_b_def Let_def)

lemma burst_free:
  "\<not> LOCK w \<Longrightarrow> run_correction_burst_once_per_hour now w =
     (if minute now \<noteq> 59 \<or> last_correction_hour w = Some (hour_key now) then Returns w
      else Returns (correction_pulses CORRECTION_PULSES
                     (w\<lparr>last_correction_hour := Some (hour_key now)\<rparr>)))"
  by (cases w) (simp add: run_correction_burst_once_per_hour_def release_def)

text \<open>One invocation: it fires the burst and records the hour, or sends no correction pulse
  and leaves the record of the hour alone.\<close>

lemma invoke_once:
  "(\<exists>w'. invoke i w = Returns w' \<and> \<not> LOCK w' \<and>
         last_correction_hour w \<noteq> Some (hour_key (time_of i)) \<and>
         last_correction_hour w' = Some (hour_key (time_of i)) \<and>
         correction_pulses_sent w' = correction_pulses_sent w + CORRECTION_PULSES) \<or>
   (correction_pulses_sent (final (invoke i w)) = correction_pulses_sent w \<and>
    (\<forall>w'. invoke i w = Returns w' \<longrightarrow> last_correction_hour w' = last_correction_hour w))"
proof (cases "LOCK w")
  case True
  then show ?thesis
    by (cases i)
       (simp_all add: minute_tick_actions_def run_correction_burst_once_per_hour_def)
next
  case False
  show ?thesis
  proof (cases i)
    case (Minute_tick now)
    then show ?thesis
      using False
      by (simp add: minute_tick_free burst_free Let_def)
  next
    case (Correction now)
    then show ?thesis
      using False by (simp add: burst_free)
  qed
qed

lemma invoke_all_done:
  "last_correction_hour w = Some k \<Longrightarrow> \<forall>i \<in> set is. hour_key (time_of i) = k \<Longrightarrow>
   correction_pulses_sent (final (invoke_all is w)) = correction_pulses_sent w"
proof (induction "is" arbitrary: w)
  case Nil
  then show ?case by simp
next
  case (Cons i "is")
  have key: "hour_key (time_of i) = k" using Cons.prems(2) by simp
  from invoke_once [of i w] Cons.prems(1) key
  have same: "correction_pulses_sent (final (invoke i w)) = correction_pulses_sent w"
    and kept: "\<forall>w'. invoke i w = Returns w' \<longrightarrow> last_correction_hour w' = last_correction_hour w"
    by auto
  show ?case
  proof (cases "invoke i w")
    case (Returns w1)
    then have "last_correction_hour w1 = Some k" using kept Cons.prems(1) by simp
    from Cons.IH [OF this] Cons.prems(2) Returns same show ?thesis by simp
  next
    case (Deadlock w1)
    then show ?thesis using same by simp
  qed
qed

lemma correction_test_already_fired:
  "\<not> LOCK w \<Longrightarrow> last_correction_hour w = Some (hour_key now) \<Longrightarrow>
   pulse_test now ''CORR'' w0 w = Returns w"
  by (simp add: pulse_test_def burst_free hour_key_def)

text \<open>
  Claim C7 fails on the code: the \<^verbatim>\<open>CORR\<close> target of \<^verbatim>\<open>/pulse\<close> goes through the
  hourly check. Once a burst has fired in the calendar hour, the test sends no pulse
  and changes nothing.
\<close>

theorem correction_test_suppressed:
  "pulse_test noon ''CORR'' 1 (fresh\<lparr>last_correction_hour := Some (hour_key noon)\<rparr>) =
     Returns (fresh\<lparr>last_correction_hour := Some (hour_key noon)\<rparr>)"
  by (simp add: pulse_test_def run_correction_burst_once_per_hour_def hour_key_def noon_def
        fresh_def initial_def release_def)

text \<open>
  Claim C8. In a calendar hour the correction burst fires at most once, however
  often the minute tick is invoked at minute 59 of that hour, and however often the
  burst is invoked directly: over any sequence of such invocations whose clock
  readings lie in one calendar hour, at most \<^verbatim>\<open>CORRECTION_PULSES\<close> correction pulses
  are sent.
\<close>

theorem burst_once_per_hour:
  assumes "\<forall>i \<in> set is. hour_key (time_of i) = k"
  shows "correction_pulses_sent (final (invoke_all is w))
           \<le> correction_pulses_sent w + CORRECTION_PULSES"
  using assms
proof (induction "is" arbitrary: w)
  case Nil
  then show ?case by simp
next
  case (Cons i "is")
  have key: "hour_key (time_of i) = k" and rest: "\<forall>j \<in> set is. hour_key (time_of j) = k"
    using Cons.prems by simp_all
  from invoke_once [of i w] consider
    (fired) w1 where "invoke i w = Returns w1" "last_correction_hour w1 = Some k"
      "correction_pulses_sent w1 = correction_pulses_sent w + CORRECTION_PULSES"
    | (quiet) "correction_pulses_sent (final (invoke i w)) = correction_pulses_sent w"
    using key by auto
  then show ?case
  proof cases
    case fired
    from invoke_all_done [OF fired(2) rest] fired(1,3) show ?thesis by simp
  next
    case quiet
    show ?thesis
    proof (cases "invoke i w")
      case (Returns w1)
      with Cons.IH [OF rest, of w1] quiet show ?thesis by simp
    next
      case (Deadlock w1)
      with quiet show ?thesis by simp
    qed
  qed
qed

theorem burst_once_per_hour_witness:
  "hour_key (time_of (Minute_tick eleven_59)) = hour_key eleven_59 \<and>
   hour_key (time_of (Correction eleven_59)) = hour_key eleven_59 \<and>
   correction_pulses_sent
     (final (invoke_all [Minute_tick eleven_59, Correction eleven_59, Minute_tick eleven_59] fresh))
     \<le> correction_pulses_sent fresh + CORRECTION_PULSES"
proof -
  have same: "\<forall>i \<in> set [Minute_tick eleven_59, Correction eleven_59, Minute_tick eleven_59].
      hour_key (time_of i) = hour_key eleven_59"
    by simp
  from burst_once_per_hour [OF same, of fresh] show ?thesis by simp
qed

lemma fired_once:
  "correction_pulses_sent
     (final (invoke_all [Minute_tick eleven_59, Correction eleven_59, Minute_tick eleven_59] fresh))
     = 17"
  by (simp add: minute_tick_free burst_free fresh_def initial_def eleven_59_def hour_key_def
      minute_key_def Let_def CORRECTION_PULSES_def)
     (simp add: correction_pulses_sent_def)

section \<open>The lock\<close>

text \<open>
  Claim C9 fails on the code: in its stall branch \<open>minute_tick_actions\<close> calls
  \<open>update_offset_after_stall_or_advance\<close> while it holds the lock, and that function
  acquires the lock. The thread blocks there, the tick recorded and the stall
  counter decremented.
\<close>

theorem stall_tick_deadlocks: 
  "minute_tick_actions noon (fresh\<lparr>stall_remaining_minutes := 1\<rparr>) =
     Deadlock (fresh\<lparr>last_minute_tick := Some (minute_key noon),
                 stall_remaining_minutes := 0, LOCK := True\<rparr>)"
  by (simp add: minute_tick_free fresh_def initial_def)

end
